theory Spec2Isabelle
  imports Complex_Main
begin

section \<open>Geometry functions: a wiggly line generator and a bearing change aggregator\<close>

text \<open>
  The development follows \<^verbatim>\<open>src/1_geometry/geometry_functions.py\<close>. The source computes
  with numpy arrays of 64-bit floats; here an array is a list and a float is a \<^typ>\<open>real\<close>.
  A statement below therefore says which expression the code evaluates and what follows from
  it in exact arithmetic; the rounding of an operation, overflow and NaN are not part of the
  model, and nothing is stated here that depends on them.
\<close>

subsection \<open>Data\<close>

type_synonym point = "real \<times> real"

text \<open>
  Python exceptions. \<open>ValueError\<close> carries its message. \<open>LinspaceError\<close> is the
  \<^verbatim>\<open>ValueError\<close> that \<^verbatim>\<open>numpy.linspace\<close> raises for a negative number of samples (its message
  quotes the number); \<open>GEOSException\<close> is what shapely raises when a line is built from a
  single coordinate; \<open>IndexError\<close> is a positional read out of range and \<open>KeyError\<close> a
  label that is not in an index.
\<close>

datatype error = ValueError string | LinspaceError int | GEOSException | IndexError | KeyError

text \<open>
  A line is the list of its coordinates. An identifier is a row label of the frame; the
  labels are integers (a list of booleans given to \<^verbatim>\<open>.loc\<close> would be read as a mask, not as
  labels, and is not covered).
\<close>

type_synonym line = "point list"

type_synonym ident = int

subsection \<open>The numpy operations the source calls\<close>

definition hypot :: "real \<Rightarrow> real \<Rightarrow> real" where
  "hypot a b = sqrt (a\<^sup>2 + b\<^sup>2)"

text \<open>
  \<^verbatim>\<open>np.linspace(start, stop, num)\<close> with the default \<^verbatim>\<open>endpoint=True\<close>: a negative \<open>num\<close>
  raises, \<open>num = 0\<close> gives the empty array, \<open>num = 1\<close> gives \<open>[start]\<close>, and otherwise
  the step is \<open>(stop - start) / (num - 1)\<close>.
\<close>

definition linspace :: "real \<Rightarrow> real \<Rightarrow> int \<Rightarrow> error + real list" where
  "linspace start stop num =
     (if num < 0 then Inl (LinspaceError num)
      else if num = 1 then Inr [start]
      else Inr (map (\<lambda>k. start + real k * ((stop - start) / real_of_int (num - 1)))
                    [0..<nat num]))"

text \<open>
  Elementwise arithmetic of two arrays (\<^verbatim>\<open>a + b\<close>, \<^verbatim>\<open>a - b\<close>, \<^verbatim>\<open>a == b\<close>, ...) is
  \<open>map2 f xs ys\<close>, the list of \<open>f (xs[k]) (ys[k])\<close>.
  \<^verbatim>\<open>np.column_stack([xs, ys])\<close> is the array of rows \<open>(xs[k], ys[k])\<close>.
\<close>

definition column_stack :: "real list \<Rightarrow> real list \<Rightarrow> point list" where
  "column_stack xs ys = zip xs ys"

subsection \<open>\<^verbatim>\<open>create_wiggly_line\<close>\<close>

text \<open>
  \<^verbatim>\<open>LineString(coordinates)\<close>, shapely's constructor, on an array of coordinate rows: no row
  gives the empty line, a single row is refused (a line needs two points) and two or more
  rows give the line through them.
\<close>

definition LineString :: "point list \<Rightarrow> error + line" where
  "LineString coordinates =
     (if length coordinates = 1 then Inl GEOSException else Inr coordinates)"

definition create_wiggly_line :: "point \<Rightarrow> point \<Rightarrow> int \<Rightarrow> real \<Rightarrow> error + line" where
  "create_wiggly_line p0 p1 n amp =
     (let (x0, y0) = p0;
          (x1, y1) = p1;
          dx = x1 - x0;
          dy = y1 - y0;
          L = hypot dx dy
      in if L = 0 then Inl (ValueError ''Points must be different'')
         else
           let ux = dx / L;
               uy = dy / L;
               nx = - uy;
               ny = ux
           in case linspace 0 1 n of
                Inl e \<Rightarrow> Inl e
              | Inr t \<Rightarrow>
                  let xs = map (\<lambda>t. x0 + t * dx) t;
                      ys = map (\<lambda>t. y0 + t * dy) t;
                      wiggle = map (\<lambda>t. amp * sin (2 * pi * t * 3)) t;
                      xs' = map2 (+) xs (map (\<lambda>w. w * nx) wiggle);
                      ys' = map2 (+) ys (map (\<lambda>w. w * ny) wiggle)
                  in LineString (column_stack xs' ys'))"

subsection \<open>More numpy, shapely and pandas operations\<close>

text \<open>
  \<^verbatim>\<open>np.arctan2(y, x)\<close>, the angle of the point \<open>(x, y)\<close> in \<open>(-\<pi>, \<pi>]\<close>, and
  \<^verbatim>\<open>np.degrees\<close>.
\<close>

definition arctan2 :: "real \<Rightarrow> real \<Rightarrow> real" where
  "arctan2 y x =
     (if 0 < x then arctan (y / x)
      else if x < 0 then (if 0 \<le> y then arctan (y / x) + pi else arctan (y / x) - pi)
      else if 0 < y then pi / 2
      else if y < 0 then - (pi / 2)
      else 0)"

definition degrees :: "real \<Rightarrow> real" where
  "degrees r = r * 180 / pi"

text \<open>The \<^verbatim>\<open>%\<close> of numpy floats: the remainder has the sign of the divisor.\<close>

definition np_mod :: "real \<Rightarrow> real \<Rightarrow> real" where
  "np_mod x m = x - m * of_int \<lfloor>x / m\<rfloor>"

text \<open>
  Boolean indexing \<^verbatim>\<open>a[m]\<close> and \<^verbatim>\<open>np.any(m)\<close>. The source only indexes an array with a
  mask of the same length.
\<close>

definition bool_index :: "'a list \<Rightarrow> bool list \<Rightarrow> 'a list" where
  "bool_index xs m = map fst (filter snd (zip xs m))"

definition np_any :: "bool list \<Rightarrow> bool" where
  "np_any m = (True \<in> set m)"

text \<open>
  \<^verbatim>\<open>shapely.get_coordinates(geoms, return_index=True)\<close>: all coordinates of all geometries
  in order, and for each coordinate the position of its geometry in \<open>geoms\<close>. A geometry
  is the list of its coordinates.
\<close>

definition get_coordinates :: "point list list \<Rightarrow> point list \<times> nat list" where
  "get_coordinates geoms =
     (concat geoms, concat (map (\<lambda>(i, g). replicate (length g) i) (enumerate 0 geoms)))"

text \<open>
  A pandas Series is the list of its rows \<open>(label, value)\<close>.
  \<^verbatim>\<open>pd.Series(v, index=idx)\<close> with a scalar \<open>v\<close> is \<open>series_const\<close>.
\<close>

type_synonym 'id series = "('id \<times> real) list"

definition series_const :: "real \<Rightarrow> 'id list \<Rightarrow> 'id series" where
  "series_const v idx = map (\<lambda>i. (i, v)) idx"

text \<open>
  \<^verbatim>\<open>pd.Series(vals).groupby(pd.Series(keys)).sum()\<close>: one row for each key that occurs,
  the keys sorted, with the sum of the values at that key.
\<close>

definition groupby_sum :: "real list \<Rightarrow> nat list \<Rightarrow> nat series" where
  "groupby_sum vals keys =
     map (\<lambda>k. (k, sum_list (bool_index vals (map (\<lambda>p. p = k) keys)))) (sort (remdups keys))"

text \<open>\<^verbatim>\<open>s.index.map(lambda i: idx[i])\<close>: a position outside \<open>idx\<close> raises.\<close>

definition index_map :: "'id list \<Rightarrow> nat list \<Rightarrow> error + 'id list" where
  "index_map idx ks =
     (if list_all (\<lambda>k. k < length idx) ks then Inr (map (\<lambda>k. idx ! k) ks)
      else Inl IndexError)"

text \<open>
  \<^verbatim>\<open>out.loc[labels] = vals\<close> with a list of labels. pandas turns the labels into
  positions: a label that is not in the index raises \<^verbatim>\<open>KeyError\<close>; a label that occurs several
  times in the index stands for all its positions. The values are then written at the
  positions, and pandas raises \<^verbatim>\<open>ValueError\<close> when there are not as many positions as values.
\<close>

definition loc_positions :: "ident list \<Rightarrow> ident \<Rightarrow> nat list" where
  "loc_positions idx lab = filter (\<lambda>j. idx ! j = lab) [0..<length idx]"

definition loc_set :: "ident series \<Rightarrow> ident list \<Rightarrow> real list \<Rightarrow> error + ident series" where
  "loc_set out labels vals =
     (let idx = map fst out
      in if \<not> list_all (\<lambda>lab. lab \<in> set idx) labels then Inl KeyError
         else
           let indexer = concat (map (loc_positions idx) labels)
           in if length indexer \<noteq> length vals
              then Inl (ValueError
                ''cannot set using a list-like indexer with a different length than the value'')
              else Inr (fold (\<lambda>(j, v) s. s[j := (fst (s ! j), v)]) (zip indexer vals) out))"

subsection \<open>\<^verbatim>\<open>total_bearing_change_planar\<close>\<close>

text \<open>The two elementwise expressions of the source, for one element.\<close>

definition bearing :: "real \<Rightarrow> real \<Rightarrow> real" where
  "bearing dx dy = np_mod (degrees (arctan2 dx dy) + 360) 360"

definition turn_angle :: "real \<Rightarrow> real \<Rightarrow> real" where
  "turn_angle b0 b1 = \<bar>np_mod (b1 - b0 + 180) 360 - 180\<bar>"

text \<open>
  The GeoDataFrame is the list of its rows \<open>(identifier, geometry)\<close>: \<^verbatim>\<open>gdf.index\<close> is the
  list of the identifiers and \<^verbatim>\<open>gdf[geom_col].values\<close> the list of the geometries.
\<close>

definition total_bearing_change_planar ::
  "(ident \<times> point list) list \<Rightarrow> error + ident series" where
  "total_bearing_change_planar gdf =
     (let index = map fst gdf;
          (coords, parent_ix) = get_coordinates (map snd gdf)
      in if length coords < 2 then Inr (series_const 0 index)
         else
           let same_geom_pair = map2 (=) (butlast parent_ix) (tl parent_ix)
           in if \<not> np_any same_geom_pair then Inr (series_const 0 index)
              else
                let c0 = bool_index (butlast coords) same_geom_pair;
                    c1 = bool_index (tl coords) same_geom_pair;
                    seg_parent = bool_index (butlast parent_ix) same_geom_pair;
                    dx = map2 (-) (map fst c1) (map fst c0);
                    dy = map2 (-) (map snd c1) (map snd c0);
                    nz = map2 (\<or>) (map (\<lambda>d. d \<noteq> 0) dx) (map (\<lambda>d. d \<noteq> 0) dy)
                in if \<not> np_any nz then Inr (series_const 0 index)
                   else
                     let dx' = bool_index dx nz;
                         dy' = bool_index dy nz;
                         seg_parent' = bool_index seg_parent nz;
                         bearings = map2 bearing dx' dy';
                         same_geom_adjacent_segment =
                           map2 (=) (butlast seg_parent') (tl seg_parent')
                     in if \<not> np_any same_geom_adjacent_segment
                        then Inr (series_const 0 index)
                        else
                          let b0 = bool_index (butlast bearings) same_geom_adjacent_segment;
                              b1 = bool_index (tl bearings) same_geom_adjacent_segment;
                              parents_for_turn =
                                bool_index (tl seg_parent') same_geom_adjacent_segment;
                              turn = map2 (\<lambda>b0 b1. turn_angle b0 b1) b0 b1;
                              s = groupby_sum turn parents_for_turn;
                              out = series_const 0 index
                          in case index_map index (map fst s) of
                               Inl e \<Rightarrow> Inl e
                             | Inr labels \<Rightarrow> loc_set out labels (map snd s))"

subsection \<open>Specification-side definitions\<close>

text \<open>The point of the wiggly line at parameter \<open>t\<close>, written out as the specification has it.\<close>

definition wiggly_point :: "point \<Rightarrow> point \<Rightarrow> real \<Rightarrow> real \<Rightarrow> point" where
  "wiggly_point p0 p1 amp t =
     (let dx = fst p1 - fst p0;
          dy = snd p1 - snd p0;
          L = sqrt (dx\<^sup>2 + dy\<^sup>2);
          nx = - (dy / L);
          ny = dx / L
      in (fst p0 + t * dx + amp * sin (2 * pi * t * 3) * nx,
          snd p0 + t * dy + amp * sin (2 * pi * t * 3) * ny))"

text \<open>The \<open>k\<close>-th of \<open>n\<close> parameter values spaced evenly over \<open>[0, 1]\<close>.\<close>

definition sample_t :: "int \<Rightarrow> nat \<Rightarrow> real" where
  "sample_t n k = real k / real_of_int (n - 1)"


text \<open>
  The same computation, one line at a time. \<open>adj xs\<close> is the list of the consecutive pairs
  of \<open>xs\<close>; a segment is a pair of points, \<open>nonzero_seg\<close> says that it has a length and
  \<open>seg_bearing\<close> is its bearing; \<open>line_bearings\<close> are the bearings of the segments of a
  line that have a length, \<open>line_turns\<close> the turns between consecutive ones and
  \<open>line_total\<close> their sum.
\<close>

definition adj :: "'a list \<Rightarrow> ('a \<times> 'a) list" where
  "adj xs = zip (butlast xs) (tl xs)"

definition nonzero_seg :: "point \<times> point \<Rightarrow> bool" where
  "nonzero_seg s = (fst (snd s) - fst (fst s) \<noteq> 0 \<or> snd (snd s) - snd (fst s) \<noteq> 0)"

definition seg_bearing :: "point \<times> point \<Rightarrow> real" where
  "seg_bearing s = bearing (fst (snd s) - fst (fst s)) (snd (snd s) - snd (fst s))"

definition line_bearings :: "point list \<Rightarrow> real list" where
  "line_bearings l = map seg_bearing (filter nonzero_seg (adj l))"

definition line_turns :: "point list \<Rightarrow> real list" where
  "line_turns l = map (\<lambda>b. turn_angle (fst b) (snd b)) (adj (line_bearings l))"

definition line_total :: "point list \<Rightarrow> real" where
  "line_total l = sum_list (line_turns l)"

subsection \<open>Auxiliary definitions for the proofs\<close>

text \<open>
  \<open>tagged k ls\<close> is the concatenation of the lists \<open>ls\<close>, each element paired with the
  position of its list, counted from \<open>k\<close>: the flat coordinate array together with its
  parent index. \<open>same_tag\<close> holds of a pair of tagged elements from the same list.
\<close>

definition tagged :: "nat \<Rightarrow> 'a list list \<Rightarrow> (nat \<times> 'a) list" where
  "tagged k ls = concat (map (\<lambda>(i, l). map (Pair i) l) (enumerate k ls))"

definition untag :: "nat \<times> ('a \<times> 'a) \<Rightarrow> (nat \<times> 'a) \<times> (nat \<times> 'a)" where
  "untag g = ((fst g, fst (snd g)), (fst g, snd (snd g)))"

definition same_tag :: "(nat \<times> 'a) \<times> (nat \<times> 'a) \<Rightarrow> bool" where
  "same_tag s = (fst (fst s) = fst (snd s))"

subsection \<open>Facts about the generator\<close>

lemma hypot_eq_0_iff: "hypot a b = 0 \<longleftrightarrow> a = 0 \<and> b = 0"
  by (simp add: hypot_def)

lemma hypot_points_eq_0_iff:
  "hypot (fst p1 - fst p0) (snd p1 - snd p0) = 0 \<longleftrightarrow> p0 = p1"
  by (auto simp: hypot_eq_0_iff prod_eq_iff)

lemma linspace_nonneg:
  "0 \<le> n \<Longrightarrow> linspace 0 1 n =
     Inr (map (\<lambda>k. real k / real_of_int (n - 1)) [0..<nat n])"
  by (auto simp: linspace_def)

lemma map2_map_same:
  "map2 f (map g xs) (map h xs) = map (\<lambda>x. f (g x) (h x)) xs"
  by (induction xs) simp_all

lemma create_wiggly_line_coords:
  assumes "p0 \<noteq> p1" and "0 \<le> n"
  shows "create_wiggly_line p0 p1 n amp =
           LineString (map (\<lambda>k. wiggly_point p0 p1 amp (sample_t n k)) [0..<nat n])"
proof -
  obtain x0 y0 x1 y1 where p: "p0 = (x0, y0)" "p1 = (x1, y1)"
    by (cases p0, cases p1) blast
  have L: "hypot (x1 - x0) (y1 - y0) \<noteq> 0"
    using assms(1) hypot_points_eq_0_iff [of p1 p0] by (simp add: p)
  show ?thesis
    using L
    by (auto simp add: create_wiggly_line_def p linspace_nonneg [OF assms(2)] Let_def
        column_stack_def map2_map_same zip_map_map wiggly_point_def hypot_def o_def
        zip_same_conv_map sample_t_def)
qed

lemma sample_t_mono: "2 \<le> n \<Longrightarrow> j < k \<Longrightarrow> sample_t n j < sample_t n k"
  by (simp add: sample_t_def divide_strict_right_mono)

lemma sample_t_last: "2 \<le> n \<Longrightarrow> sample_t n (nat n - 1) = 1"
  by (simp add: sample_t_def)

lemma wiggly_point_0: "wiggly_point p0 p1 amp 0 = p0"
  by (simp add: wiggly_point_def)

lemma create_wiggly_line_sample:
  assumes "p0 \<noteq> p1" and "n = 0 \<or> 2 \<le> n"
  shows "create_wiggly_line p0 p1 n amp =
           Inr (map (\<lambda>k. wiggly_point p0 p1 amp (sample_t n k)) [0..<nat n])"
proof -
  have "0 \<le> n" and "nat n \<noteq> 1" using assms(2) by auto
  then show ?thesis
    using create_wiggly_line_coords [OF assms(1), of n amp] by (simp add: LineString_def)
qed

lemma create_wiggly_line_single:
  assumes "p0 \<noteq> p1"
  shows "create_wiggly_line p0 p1 1 amp = LineString [wiggly_point p0 p1 amp 0]"
  using create_wiggly_line_coords [OF assms, of 1 amp] by (simp add: sample_t_def)

lemma create_wiggly_line_negative:
  assumes "p0 \<noteq> p1" and "n < 0"
  shows "create_wiggly_line p0 p1 n amp = Inl (LinspaceError n)"
proof -
  obtain x0 y0 x1 y1 where p: "p0 = (x0, y0)" "p1 = (x1, y1)"
    by (cases p0, cases p1) blast
  have L: "hypot (x1 - x0) (y1 - y0) \<noteq> 0"
    using assms(1) hypot_points_eq_0_iff [of p1 p0] by (simp add: p)
  show ?thesis
    using L assms(2) by (simp add: create_wiggly_line_def p linspace_def)
qed

lemma create_wiggly_line_same:
  "create_wiggly_line p0 p0 n amp = Inl (ValueError ''Points must be different'')"
  by (cases p0) (simp add: create_wiggly_line_def hypot_def)

subsection \<open>Claims about the generator\<close>

text \<open>
  Claim C2. For \<open>p0 \<noteq> p1\<close> and \<open>n \<ge> 2\<close> the generator returns the line of exactly
  \<open>n\<close> points, the \<open>k\<close>-th being
  \<open>p0 + t\<^sub>k (p1 - p0) + amp sin (2 \<pi> t\<^sub>k 3) (nx, ny)\<close> with \<open>(nx, ny) = (- uy, ux)\<close>
  (this is \<open>wiggly_point\<close>), where the \<open>t\<^sub>k = k / (n - 1)\<close> start at 0, end at 1 and
  increase with \<open>k\<close>.
\<close>

theorem generator_points:
  assumes "p0 \<noteq> p1" and "2 \<le> n"
  shows "create_wiggly_line p0 p1 n amp =
           Inr (map (\<lambda>k. wiggly_point p0 p1 amp (sample_t n k)) [0..<nat n])
         \<and> length (map (\<lambda>k. wiggly_point p0 p1 amp (sample_t n k)) [0..<nat n]) = nat n
         \<and> sample_t n 0 = 0 \<and> sample_t n (nat n - 1) = 1
         \<and> (\<forall>j k. j < k \<and> k < nat n \<longrightarrow> sample_t n j < sample_t n k)"
proof -
  have "n = 0 \<or> 2 \<le> n" using assms(2) by simp
  from create_wiggly_line_sample [OF assms(1) this]
  have "create_wiggly_line p0 p1 n amp =
           Inr (map (\<lambda>k. wiggly_point p0 p1 amp (sample_t n k)) [0..<nat n])" .
  moreover have "sample_t n 0 = 0" by (simp add: sample_t_def)
  ultimately show ?thesis
    using sample_t_last [OF assms(2)] sample_t_mono [OF assms(2)] by simp
qed

theorem generator_points_witness:
  "((0, 0) :: point) \<noteq> (1, 0) \<and> (2 :: int) \<le> 2
   \<and> create_wiggly_line (0, 0) (1, 0) 2 5 = Inr [(0, 0), (1, 0)]"
  using generator_points [of "(0, 0)" "(1, 0)" 2 5]
  by (simp add: wiggly_point_def sample_t_def upt_rec)




text \<open>
  Claim C8, as stated: for \<open>n = 1\<close> the generator returns a line of one point. It fails: the
  one coordinate row is refused by the line constructor and the generator raises.
\<close>

theorem generator_single_point_counterexample:
  "create_wiggly_line (0, 0) (1, 0) 1 5 = Inl GEOSException"
  by (simp add: create_wiggly_line_def linspace_def hypot_def column_stack_def LineString_def)

text \<open>
  Claim C8, amended. For \<open>n = 1\<close> and \<open>p0 \<noteq> p1\<close> the only sampled parameter is 0 and the
  only coordinate row is the point at \<open>t = 0\<close>, which is \<open>p0\<close>; the generator hands this
  one row to the line constructor, which refuses it, so the generator raises and returns no
  line.
\<close>

theorem generator_single_point:
  assumes "p0 \<noteq> p1"
  shows "linspace 0 1 1 = Inr [0]
         \<and> create_wiggly_line p0 p1 1 amp = LineString [wiggly_point p0 p1 amp 0]
         \<and> wiggly_point p0 p1 amp 0 = p0
         \<and> create_wiggly_line p0 p1 1 amp = Inl GEOSException"
  using create_wiggly_line_single [OF assms, of amp]
  by (simp add: linspace_def wiggly_point_0 LineString_def)

theorem generator_single_point_witness:
  "((0, 0) :: point) \<noteq> (3, 4)
   \<and> create_wiggly_line (0, 0) (3, 4) 1 5 = LineString [(0, 0)]
   \<and> create_wiggly_line (0, 0) (3, 4) 1 5 = Inl GEOSException"
proof -
  have h: "((0, 0) :: point) \<noteq> (3, 4)" by simp
  from generator_single_point [OF h, of 5]
  have "create_wiggly_line (0, 0) (3, 4) 1 5 = LineString [wiggly_point (0, 0) (3, 4) 5 0]"
    and "wiggly_point (0, 0) (3, 4) 5 0 = (0, 0)"
    and "create_wiggly_line (0, 0) (3, 4) 1 5 = Inl GEOSException"
    by blast+
  then show ?thesis using h by simp
qed

text \<open>
  Claim C4, as stated: the error for equal points is the only error the generator raises, and
  it raises nothing when the points differ. It fails: with different points, one sample makes
  the line constructor raise and a negative number of samples makes \<^verbatim>\<open>np.linspace\<close> raise.
\<close>

theorem generator_error_counterexample:
  "create_wiggly_line (0, 0) (3, 4) 1 5 = Inl GEOSException
   \<and> create_wiggly_line (0, 0) (3, 4) (- 1) 5 = Inl (LinspaceError (- 1))"
  by (simp add: create_wiggly_line_def linspace_def hypot_def column_stack_def LineString_def)

text \<open>
  Claim C4, amended. The generator raises \<^verbatim>\<open>ValueError\<close> with the message
  \<open>Points must be different\<close> exactly when \<open>p0 = p1\<close>, which is when the Euclidean distance
  of the two points is 0. When the points differ it raises nothing and returns the line of
  its \<open>n\<close> points for \<open>n = 0\<close> and for \<open>n \<ge> 2\<close>; for \<open>n = 1\<close> the line constructor
  raises, and for \<open>n < 0\<close> the sampling raises.
\<close>

theorem generator_error:
  "(create_wiggly_line p0 p1 n amp = Inl (ValueError ''Points must be different'')) = (p0 = p1)
   \<and> (hypot (fst p1 - fst p0) (snd p1 - snd p0) = 0) = (p0 = p1)
   \<and> (p0 \<noteq> p1 \<and> (n = 0 \<or> 2 \<le> n) \<longrightarrow>
        create_wiggly_line p0 p1 n amp =
          Inr (map (\<lambda>k. wiggly_point p0 p1 amp (sample_t n k)) [0..<nat n]))
   \<and> (p0 \<noteq> p1 \<and> n = 1 \<longrightarrow> create_wiggly_line p0 p1 n amp = Inl GEOSException)
   \<and> (p0 \<noteq> p1 \<and> n < 0 \<longrightarrow> create_wiggly_line p0 p1 n amp = Inl (LinspaceError n))"
proof -
  have s: "create_wiggly_line p0 p1 n amp =
             Inr (map (\<lambda>k. wiggly_point p0 p1 amp (sample_t n k)) [0..<nat n])"
    if "p0 \<noteq> p1" "n = 0 \<or> 2 \<le> n"
    using create_wiggly_line_sample [OF that] .
  have g: "create_wiggly_line p0 p1 n amp = Inl GEOSException" if "p0 \<noteq> p1" "n = 1"
    using create_wiggly_line_single [OF that(1), of amp] that(2) by (simp add: LineString_def)
  have l: "create_wiggly_line p0 p1 n amp = Inl (LinspaceError n)" if "p0 \<noteq> p1" "n < 0"
    using create_wiggly_line_negative [OF that] .
  have d: "create_wiggly_line p0 p1 n amp \<noteq> Inl (ValueError ''Points must be different'')"
    if ne: "p0 \<noteq> p1"
  proof -
    consider "n = 0 \<or> 2 \<le> n" | "n = 1" | "n < 0" by linarith
    then show ?thesis
    proof cases
      case 1 then show ?thesis using s [OF ne] by simp
    next
      case 2 then show ?thesis using g [OF ne] by simp
    next
      case 3 then show ?thesis using l [OF ne] by simp
    qed
  qed
  have f: "(create_wiggly_line p0 p1 n amp
              = Inl (ValueError ''Points must be different'')) = (p0 = p1)"
    using create_wiggly_line_same [of p0 n amp] d by blast
  show ?thesis
    using f s g l hypot_points_eq_0_iff [of p1 p0] by blast
qed

theorem generator_error_witness:
  "((0, 0) :: point) \<noteq> (1, 0)
   \<and> create_wiggly_line (0, 0) (1, 0) 2 0 = Inr [(0, 0), (1, 0)]
   \<and> create_wiggly_line (0, 0) (1, 0) 1 0 = Inl GEOSException
   \<and> create_wiggly_line (0, 0) (1, 0) (- 3) 0 = Inl (LinspaceError (- 3))
   \<and> create_wiggly_line (0, 0) (0, 0) 2 0 = Inl (ValueError ''Points must be different'')"
  using generator_error [of "(0, 0)" "(1, 0)" 2 0] generator_error [of "(0, 0)" "(1, 0)" 1 0]
    generator_error [of "(0, 0)" "(1, 0)" "- 3" 0] generator_error [of "(0, 0)" "(0, 0)" 2 0]
  by (simp add: wiggly_point_def sample_t_def upt_rec)

subsection \<open>The turn between two bearings\<close>

lemma np_mod_360_unique:
  assumes "0 \<le> x - 360 * of_int k" and "x - 360 * of_int k < 360"
  shows "np_mod x 360 = x - 360 * of_int k"
proof -
  have "\<lfloor>x / 360\<rfloor> = k"
    using assms by (intro floor_unique) (simp_all add: field_simps)
  then show ?thesis by (simp add: np_mod_def)
qed

lemma np_mod_360_bounds: "0 \<le> np_mod x 360 \<and> np_mod x 360 < 360"
proof -
  have "of_int \<lfloor>x / 360\<rfloor> \<le> x / 360" "x / 360 < of_int \<lfloor>x / 360\<rfloor> + 1"
    by linarith+
  then show ?thesis by (simp add: np_mod_def field_simps)
qed

lemma bearing_range: "0 \<le> bearing dx dy \<and> bearing dx dy < 360"
  by (simp add: bearing_def np_mod_360_bounds)

lemma turn_angle_range: "0 \<le> turn_angle b0 b1 \<and> turn_angle b0 b1 \<le> 180"
  using np_mod_360_bounds [of "b1 - b0 + 180"] by (simp add: turn_angle_def abs_le_iff)

lemma turn_angle_min:
  assumes "0 \<le> b0" "b0 < 360" "0 \<le> b1" "b1 < 360"
  shows "turn_angle b0 b1 = min \<bar>b1 - b0\<bar> (360 - \<bar>b1 - b0\<bar>)"
proof -
  consider "b1 - b0 < - 180" | "- 180 \<le> b1 - b0" "b1 - b0 < 180" | "180 \<le> b1 - b0"
    by linarith
  then show ?thesis
  proof cases
    case 1
    have "np_mod (b1 - b0 + 180) 360 = (b1 - b0 + 180) - 360 * of_int (- 1)"
      using 1 assms by (intro np_mod_360_unique) simp_all
    then show ?thesis using 1 assms by (simp add: turn_angle_def)
  next
    case 2
    have "np_mod (b1 - b0 + 180) 360 = (b1 - b0 + 180) - 360 * of_int 0"
      using 2 by (intro np_mod_360_unique) simp_all
    then show ?thesis using 2 by (simp add: turn_angle_def)
  next
    case 3
    have "np_mod (b1 - b0 + 180) 360 = (b1 - b0 + 180) - 360 * of_int 1"
      using 3 assms by (intro np_mod_360_unique) simp_all
    then show ?thesis using 3 assms by (simp add: turn_angle_def)
  qed
qed

lemma turn_angle_least: "turn_angle b0 b1 \<le> \<bar>b1 - b0 + 360 * of_int k\<bar>"
proof -
  define m where "m = \<lfloor>(b1 - b0 + 180) / 360\<rfloor>"
  define r where "r = b1 - b0 - 360 * of_int m"
  have t: "turn_angle b0 b1 = \<bar>r\<bar>"
    by (simp add: turn_angle_def np_mod_def m_def r_def)
  have r: "- 180 \<le> r" "r < 180"
    using np_mod_360_bounds [of "b1 - b0 + 180"] by (simp_all add: np_mod_def m_def r_def)
  have e: "b1 - b0 + 360 * of_int k = r + 360 * of_int (k + m)"
    by (simp add: r_def algebra_simps)
  show ?thesis
  proof (cases "k + m = 0")
    case True
    then show ?thesis using t e by simp
  next
    case False
    then consider "k + m \<le> - 1" | "1 \<le> k + m" by linarith
    then show ?thesis
    proof cases
      case 1
      then have "(of_int (k + m) :: real) \<le> - 1" by linarith
      moreover define q :: real where "q = of_int (k + m)"
      ultimately have "q \<le> - 1" by simp
      then have "\<bar>r\<bar> \<le> \<bar>r + 360 * q\<bar>" using r by linarith
      then show ?thesis unfolding t e q_def .
    next
      case 2
      then have "(1 :: real) \<le> of_int (k + m)" by linarith
      moreover define q :: real where "q = of_int (k + m)"
      ultimately have "1 \<le> q" by simp
      then have "\<bar>r\<bar> \<le> \<bar>r + 360 * q\<bar>" using r by linarith
      then show ?thesis unfolding t e q_def .
    qed
  qed
qed

lemma turn_angle_attained: "\<exists>k::int. turn_angle b0 b1 = \<bar>b1 - b0 + 360 * of_int k\<bar>"
proof -
  have "turn_angle b0 b1 = \<bar>b1 - b0 + 360 * of_int (- \<lfloor>(b1 - b0 + 180) / 360\<rfloor>)\<bar>"
    by (simp add: turn_angle_def np_mod_def)
  then show ?thesis ..
qed

lemma turn_angle_350_10: "turn_angle 350 10 = 20"
proof -
  have "np_mod (10 - 350 + 180) 360 = (10 - 350 + 180) - 360 * of_int (- 1)"
    by (intro np_mod_360_unique) simp_all
  then show ?thesis by (simp add: turn_angle_def)
qed

subsection \<open>The flat arrays and the lines\<close>

lemma tagged_Nil [simp]: "tagged k [] = []"
  by (simp add: tagged_def)

lemma tagged_Cons [simp]: "tagged k (l # ls) = map (Pair k) l @ tagged (Suc k) ls"
  by (simp add: tagged_def)

lemma tagged_fst_ge: "x \<in> set (tagged k ls) \<Longrightarrow> k \<le> fst x"
  by (induction ls arbitrary: k) (auto dest: Suc_leD)

lemma concat_tagged: "concat ls = map snd (tagged k ls)"
  by (induction ls arbitrary: k) (simp_all add: o_def)

lemma parents_tagged:
  "concat (map (\<lambda>(i, g). replicate (length g) i) (enumerate k ls)) = map fst (tagged k ls)"
  by (induction ls arbitrary: k) (simp_all add: o_def map_replicate_const)

lemma get_coordinates_tagged:
  "get_coordinates ls = (map snd (tagged 0 ls), map fst (tagged 0 ls))"
  by (simp add: get_coordinates_def concat_tagged [of ls 0] parents_tagged)

lemma adj_Nil [simp]: "adj [] = []" by (simp add: adj_def)
lemma adj_single [simp]: "adj [x] = []" by (simp add: adj_def)
lemma adj_Cons2 [simp]: "adj (x # y # zs) = (x, y) # adj (y # zs)" by (simp add: adj_def)

lemma adj_append:
  "adj (xs @ ys) = adj xs @ (if xs = [] \<or> ys = [] then [] else [(last xs, hd ys)]) @ adj ys"
proof (induction xs rule: induct_list012)
  case 1 show ?case by simp
next
  case (2 x) show ?case by (cases ys) simp_all
next
  case (3 x y zs) then show ?case by simp
qed

lemma adj_map: "adj (map f xs) = map (map_prod f f) (adj xs)"
  by (induction xs rule: induct_list012) simp_all

lemma map_fst_adj: "map (f \<circ> fst) (adj xs) = map f (butlast xs)"
  by (induction xs rule: induct_list012) simp_all

lemma map_snd_adj: "map (f \<circ> snd) (adj xs) = map f (tl xs)"
  by (induction xs rule: induct_list012) simp_all

lemma adj_eq_Nil: "adj xs = [] \<longleftrightarrow> length xs < 2"
  by (induction xs rule: induct_list012) simp_all

lemma bool_index_map: "bool_index (map f zs) (map P zs) = map f (filter P zs)"
  by (induction zs) (simp_all add: bool_index_def)

lemma np_any_map: "np_any (map P zs) \<longleftrightarrow> filter P zs \<noteq> []"
  by (induction zs) (auto simp: np_any_def)

lemma same_tag_fun: "(\<lambda>s. fst (fst s) = fst (snd s)) = same_tag"
  by (simp add: fun_eq_iff same_tag_def)

lemma filter_same_tag_tagged:
  "filter same_tag (adj (tagged k ls)) = map untag (tagged k (map adj ls))"
proof (induction ls arbitrary: k)
  case Nil show ?case by simp
next
  case (Cons l ls)
  have a: "filter same_tag (adj (map (Pair k) l)) = map untag (map (Pair k) (adj l))"
    by (auto simp: adj_map filter_map o_def same_tag_def untag_def)
  have b: "filter same_tag (if map (Pair k) l = [] \<or> tagged (Suc k) ls = [] then []
             else [(last (map (Pair k) l), hd (tagged (Suc k) ls))]) = []"
  proof (cases "l = [] \<or> tagged (Suc k) ls = []")
    case True then show ?thesis by auto
  next
    case False
    then have "hd (tagged (Suc k) ls) \<in> set (tagged (Suc k) ls)" by simp
    then have "Suc k \<le> fst (hd (tagged (Suc k) ls))" by (rule tagged_fst_ge)
    then show ?thesis using False by (simp add: same_tag_def last_map)
  qed
  show ?case
    by (simp only: tagged_Cons adj_append filter_append a b Cons.IH list.map map_append) simp
qed

lemma filter_tagged: "filter (\<lambda>g. P (snd g)) (tagged k ls) = tagged k (map (filter P) ls)"
  by (induction ls arbitrary: k) (simp_all add: filter_map o_def)

lemma map_tagged: "map (\<lambda>g. (fst g, f (snd g))) (tagged k ls) = tagged k (map (map f) ls)"
  by (induction ls arbitrary: k) (simp_all add: o_def)

lemma tagged_eq_Nil: "tagged k ls = [] \<longleftrightarrow> (\<forall>l \<in> set ls. l = [])"
  by (induction ls arbitrary: k) auto

lemma filter_key_tagged:
  "filter (\<lambda>t. fst t = i) (tagged k ls) =
     (if k \<le> i \<and> i < k + length ls then map (Pair i) (ls ! (i - k)) else [])"
proof (induction ls arbitrary: k)
  case Nil show ?case by auto
next
  case (Cons l ls)
  show ?case
  proof (cases "i = k")
    case True
    show ?thesis using Cons.IH [of "Suc k"] by (simp add: True filter_map o_def)
  next
    case False
    have "filter (\<lambda>t. fst t = i) (map (Pair k) l) = []"
      using False by (simp add: filter_map o_def)
    then show ?thesis
      using Cons.IH [of "Suc k"] False by (auto simp: Suc_diff_Suc nth_Cons')
  qed
qed

lemma set_fst_tagged:
  "fst ` set (tagged k ls) = {i. k \<le> i \<and> i < k + length ls \<and> ls ! (i - k) \<noteq> []}"
proof -
  have "i \<in> fst ` set (tagged k ls) \<longleftrightarrow> filter (\<lambda>t. fst t = i) (tagged k ls) \<noteq> []" for i
    by (auto simp: filter_empty_conv)
  moreover have "filter (\<lambda>t. fst t = i) (tagged k ls) \<noteq> [] \<longleftrightarrow> k \<le> i \<and> i < k + length ls \<and> ls ! (i - k) \<noteq> []" for i
    by (cases "k \<le> i \<and> i < k + length ls") (auto simp: filter_key_tagged)
  ultimately have "i \<in> fst ` set (tagged k ls) \<longleftrightarrow> k \<le> i \<and> i < k + length ls \<and> ls ! (i - k) \<noteq> []" for i
    by (simp only:)
  then show ?thesis by blast
qed

lemma keys_tagged:
  "sort (remdups (map fst (tagged 0 ls))) = filter (\<lambda>i. ls ! i \<noteq> []) [0..<length ls]"
proof (rule sorted_distinct_set_unique)
  show "set (sort (remdups (map fst (tagged 0 ls)))) = set (filter (\<lambda>i. ls ! i \<noteq> []) [0..<length ls])"
    using set_fst_tagged [of 0 ls] by auto
qed (simp_all add: sorted_wrt_filter)

lemma map2_adj:
  "map2 f (butlast (map g zs)) (tl (map h zs)) = map (\<lambda>s. f (g (fst s)) (h (snd s))) (adj zs)"
  by (induction zs rule: induct_list012) simp_all

lemma bool_index_butlast:
  "bool_index (butlast (map g zs)) (map P (adj zs)) = map (\<lambda>s. g (fst s)) (filter P (adj zs))"
proof -
  have "butlast (map g zs) = map (\<lambda>s. g (fst s)) (adj zs)"
    using map_fst_adj [of g zs] by (simp add: o_def map_butlast)
  then show ?thesis by (simp only: bool_index_map)
qed

lemma bool_index_tl:
  "bool_index (tl (map g zs)) (map P (adj zs)) = map (\<lambda>s. g (snd s)) (filter P (adj zs))"
proof -
  have "tl (map g zs) = map (\<lambda>s. g (snd s)) (adj zs)"
    using map_snd_adj [of g zs] by (simp add: o_def map_tl)
  then show ?thesis by (simp only: bool_index_map)
qed

lemma pipeline:
  fixes gdf :: "(ident \<times> point list) list"
  defines "ls \<equiv> map snd gdf"
  defines "TT \<equiv> tagged 0 (map line_turns ls)"
  shows "total_bearing_change_planar gdf =
     (if TT = [] then Inr (series_const 0 (map fst gdf))
      else case index_map (map fst gdf) (map fst (groupby_sum (map snd TT) (map fst TT))) of
             Inl e \<Rightarrow> Inl e
           | Inr labels \<Rightarrow>
               loc_set (series_const 0 (map fst gdf)) labels
                 (map snd (groupby_sum (map snd TT) (map fst TT))))"
proof -
  define Z where "Z = tagged 0 ls"
  define G where "G = tagged 0 (map adj ls)"
  define G' where "G' = tagged 0 (map (filter nonzero_seg) (map adj ls))"
  define B where "B = tagged 0 (map line_bearings ls)"
  define H where "H = tagged 0 (map adj (map line_bearings ls))"
  define coords where "coords = map snd Z"
  define parent_ix where "parent_ix = map fst Z"
  define same_geom_pair where "same_geom_pair = map2 (=) (butlast parent_ix) (tl parent_ix)"
  define c0 where "c0 = bool_index (butlast coords) same_geom_pair"
  define c1 where "c1 = bool_index (tl coords) same_geom_pair"
  define seg_parent where "seg_parent = bool_index (butlast parent_ix) same_geom_pair"
  define dx where "dx = map2 (-) (map fst c1) (map fst c0)"
  define dy where "dy = map2 (-) (map snd c1) (map snd c0)"
  define nz where "nz = map2 (\<or>) (map (\<lambda>d. d \<noteq> 0) dx) (map (\<lambda>d. d \<noteq> 0) dy)"
  define dx' where "dx' = bool_index dx nz"
  define dy' where "dy' = bool_index dy nz"
  define seg_parent' where "seg_parent' = bool_index seg_parent nz"
  define bearings where "bearings = map2 bearing dx' dy'"
  define same_adj where "same_adj = map2 (=) (butlast seg_parent') (tl seg_parent')"
  define b0 where "b0 = bool_index (butlast bearings) same_adj"
  define b1 where "b1 = bool_index (tl bearings) same_adj"
  define parents_for_turn where "parents_for_turn = bool_index (tl seg_parent') same_adj"
  define turn where "turn = map2 (\<lambda>b0 b1. turn_angle b0 b1) b0 b1"
  have unfolded: "total_bearing_change_planar gdf =
     (if length coords < 2 then Inr (series_const 0 (map fst gdf))
      else if \<not> np_any same_geom_pair then Inr (series_const 0 (map fst gdf))
      else if \<not> np_any nz then Inr (series_const 0 (map fst gdf))
      else if \<not> np_any same_adj then Inr (series_const 0 (map fst gdf))
      else case index_map (map fst gdf) (map fst (groupby_sum turn parents_for_turn)) of
             Inl e \<Rightarrow> Inl e
           | Inr labels \<Rightarrow>
               loc_set (series_const 0 (map fst gdf)) labels
                 (map snd (groupby_sum turn parents_for_turn)))"
    unfolding total_bearing_change_planar_def Let_def get_coordinates_tagged prod.case
      turn_def parents_for_turn_def b1_def b0_def same_adj_def bearings_def seg_parent'_def
      dy'_def dx'_def nz_def dy_def dx_def seg_parent_def c1_def c0_def same_geom_pair_def
      parent_ix_def coords_def Z_def ls_def
    by simp
  have sgp: "same_geom_pair = map same_tag (adj Z)"
    unfolding same_geom_pair_def parent_ix_def by (simp only: map2_adj same_tag_fun)
  have S: "filter same_tag (adj Z) = map untag G"
    unfolding Z_def G_def by (rule filter_same_tag_tagged)
  have c0: "c0 = map (\<lambda>g. fst (snd g)) G"
    unfolding c0_def coords_def sgp bool_index_butlast S by (simp add: untag_def)
  have c1: "c1 = map (\<lambda>g. snd (snd g)) G"
    unfolding c1_def coords_def sgp bool_index_tl S by (simp add: untag_def)
  have sp: "seg_parent = map fst G"
    unfolding seg_parent_def parent_ix_def sgp bool_index_butlast S by (simp add: untag_def o_def)
  have dx: "dx = map (\<lambda>g. fst (snd (snd g)) - fst (fst (snd g))) G"
    unfolding dx_def c0 c1 by (simp add: map2_map_same o_def)
  have dy: "dy = map (\<lambda>g. snd (snd (snd g)) - snd (fst (snd g))) G"
    unfolding dy_def c0 c1 by (simp add: map2_map_same o_def)
  have nz: "nz = map (\<lambda>g. nonzero_seg (snd g)) G"
    unfolding nz_def dx dy by (simp add: map2_map_same o_def nonzero_seg_def)
  have G': "filter (\<lambda>g. nonzero_seg (snd g)) G = G'"
    unfolding G_def G'_def by (rule filter_tagged)
  have dx': "dx' = map (\<lambda>g. fst (snd (snd g)) - fst (fst (snd g))) G'"
    unfolding dx'_def dx nz bool_index_map G' ..
  have dy': "dy' = map (\<lambda>g. snd (snd (snd g)) - snd (fst (snd g))) G'"
    unfolding dy'_def dy nz bool_index_map G' ..
  have B: "B = map (\<lambda>g. (fst g, seg_bearing (snd g))) G'"
    unfolding B_def G'_def map_tagged by (simp add: line_bearings_def [abs_def] o_def)
  have sp': "seg_parent' = map fst B"
    unfolding seg_parent'_def sp nz bool_index_map G' B by (simp add: o_def)
  have bearings: "bearings = map snd B"
    unfolding bearings_def dx' dy' B by (simp add: map2_map_same o_def seg_bearing_def)
  have sa: "same_adj = map same_tag (adj B)"
    unfolding same_adj_def sp' by (simp only: map2_adj same_tag_fun)
  have T: "filter same_tag (adj B) = map untag H"
    unfolding B_def H_def by (rule filter_same_tag_tagged)
  have TT: "TT = map (\<lambda>h. (fst h, turn_angle (fst (snd h)) (snd (snd h)))) H"
    unfolding TT_def H_def
    using map_tagged [of "\<lambda>b. turn_angle (fst b) (snd b)" 0 "map adj (map line_bearings ls)"]
    by (simp add: line_turns_def [abs_def] o_def)
  have b0: "b0 = map (\<lambda>h. fst (snd h)) H"
    unfolding b0_def bearings sa bool_index_butlast T by (simp add: untag_def)
  have b1: "b1 = map (\<lambda>h. snd (snd h)) H"
    unfolding b1_def bearings sa bool_index_tl T by (simp add: untag_def)
  have pft: "parents_for_turn = map fst TT"
    unfolding parents_for_turn_def sp' sa bool_index_tl T TT by (simp add: untag_def o_def)
  have turn: "turn = map snd TT"
    unfolding turn_def b0 b1 TT by (simp add: map2_map_same o_def)
  have e1: "TT = []" if "length coords < 2"
  proof -
    have "adj Z = []" using that by (simp add: coords_def adj_eq_Nil)
    then have "G = []" using S by simp
    then have "G' = []" using G' by simp
    then have "B = []" using B by simp
    then have "H = []" using T by simp
    then show ?thesis using TT by simp
  qed
  have e2: "TT = []" if "\<not> np_any same_geom_pair"
  proof -
    have "G = []" using that S by (simp add: sgp np_any_map)
    then have "G' = []" using G' by simp
    then have "B = []" using B by simp
    then have "H = []" using T by simp
    then show ?thesis using TT by simp
  qed
  have e3: "TT = []" if "\<not> np_any nz"
  proof -
    have "G' = []" using that G' by (simp add: nz np_any_map)
    then have "B = []" using B by simp
    then have "H = []" using T by simp
    then show ?thesis using TT by simp
  qed
  have e4: "TT = [] \<longleftrightarrow> \<not> np_any same_adj"
    using T TT by (simp add: sa np_any_map)
  show ?thesis
    unfolding unfolded pft turn using e1 e2 e3 e4 by auto
qed

lemma groupby_sum_tagged:
  "groupby_sum (map snd (tagged 0 ts)) (map fst (tagged 0 ts)) =
     map (\<lambda>k. (k, sum_list (ts ! k))) (filter (\<lambda>i. ts ! i \<noteq> []) [0..<length ts])"
proof -
  have v: "bool_index (map snd (tagged 0 ts)) (map (\<lambda>p. p = k) (map fst (tagged 0 ts))) = ts ! k"
    if "k < length ts" for k
  proof -
    have "bool_index (map snd (tagged 0 ts)) (map (\<lambda>p. p = k) (map fst (tagged 0 ts)))
            = map snd (filter (\<lambda>t. fst t = k) (tagged 0 ts))"
      using bool_index_map [of snd "tagged 0 ts" "\<lambda>t. fst t = k"] by (simp add: o_def)
    also have "\<dots> = ts ! k"
      using that by (simp add: filter_key_tagged o_def)
    finally show ?thesis .
  qed
  show ?thesis
    unfolding groupby_sum_def keys_tagged
  proof (rule map_cong [OF refl])
    fix k
    assume "k \<in> set (filter (\<lambda>i. ts ! i \<noteq> []) [0..<length ts])"
    then have "k < length ts" by simp
    from v [OF this]
    show "(k, sum_list (bool_index (map snd (tagged 0 ts)) (map (\<lambda>p. p = k) (map fst (tagged 0 ts)))))
            = (k, sum_list (ts ! k))"
      by (simp only:)
  qed
qed

lemma filter_eq_upt: "filter (\<lambda>j. j = k) [0..<n] = (if k < n then [k] else [])"
  by (induction n) auto

lemma loc_positions_distinct:
  assumes "distinct idx" and "k < length idx"
  shows "loc_positions idx (idx ! k) = [k]"
proof -
  have "filter (\<lambda>j. idx ! j = idx ! k) [0..<length idx] = filter (\<lambda>j. j = k) [0..<length idx]"
    by (rule filter_cong) (simp_all add: nth_eq_iff_index_eq assms)
  then show ?thesis
    using assms(2) by (simp add: loc_positions_def filter_eq_upt)
qed

lemma indexer_distinct:
  assumes "distinct idx" and "\<forall>k \<in> set ks. k < length idx"
  shows "concat (map (loc_positions idx) (map (\<lambda>k. idx ! k) ks)) = ks"
  using assms(2) by (induction ks) (simp_all add: loc_positions_distinct [OF assms(1)])

lemma fold_assign:
  assumes "distinct ks" and "\<forall>k \<in> set ks. k < length out"
  shows "fold (\<lambda>(j, v) s. s[j := (fst (s ! j), v)]) (zip ks (map f ks)) out =
           map (\<lambda>i. if i \<in> set ks then (fst (out ! i), f i) else out ! i) [0..<length out]"
  using assms
proof (induction ks arbitrary: out)
  case Nil
  show ?case by (simp add: map_nth)
next
  case (Cons k ks)
  let ?out = "out[k := (fst (out ! k), f k)]"
  have "fold (\<lambda>(j, v) s. s[j := (fst (s ! j), v)]) (zip ks (map f ks)) ?out =
          map (\<lambda>i. if i \<in> set ks then (fst (?out ! i), f i) else ?out ! i) [0..<length ?out]"
    using Cons.prems by (intro Cons.IH) simp_all
  also have "\<dots> = map (\<lambda>i. if i \<in> set (k # ks) then (fst (out ! i), f i) else out ! i)
                       [0..<length out]"
    using Cons.prems by (auto simp: nth_list_update)
  finally show ?case by simp
qed

lemma loc_set_distinct:
  assumes "distinct idx" and "distinct ks" and "\<forall>k \<in> set ks. k < length idx"
  shows "loc_set (series_const v idx) (map (\<lambda>k. idx ! k) ks) (map f ks) =
           Inr (map (\<lambda>i. (idx ! i, if i \<in> set ks then f i else v)) [0..<length idx])"
proof -
  have a: "map fst (series_const v idx) = idx"
    by (simp add: series_const_def o_def)
  have b: "list_all (\<lambda>lab. lab \<in> set idx) (map (\<lambda>k. idx ! k) ks)"
    using assms(3) by (simp add: list_all_iff)
  have c: "\<forall>k \<in> set ks. k < length (series_const v idx)"
    using assms(3) by (simp add: series_const_def)
  have d: "map (\<lambda>i. if i \<in> set ks then (fst (series_const v idx ! i), f i)
                     else series_const v idx ! i) [0..<length (series_const v idx)]
           = map (\<lambda>i. (idx ! i, if i \<in> set ks then f i else v)) [0..<length idx]"
    by (rule nth_equalityI) (simp_all add: series_const_def)
  show ?thesis
    unfolding loc_set_def Let_def a indexer_distinct [OF assms(1,3)]
      fold_assign [OF assms(2) c] d
    using b by simp
qed

lemma line_total_series:
  "map (\<lambda>i. (map fst gdf ! i, line_total (map snd gdf ! i))) [0..<length gdf] =
     map (\<lambda>r. (fst r, line_total (snd r))) gdf"
  by (rule nth_equalityI) simp_all

lemma aggregate_distinct:
  assumes "distinct (map fst gdf)"
  shows "total_bearing_change_planar gdf = Inr (map (\<lambda>r. (fst r, line_total (snd r))) gdf)"
proof -
  define ts where "ts = map line_turns (map snd gdf)"
  define idx where "idx = map fst gdf"
  define ks where "ks = filter (\<lambda>i. ts ! i \<noteq> []) [0..<length ts]"
  have len: "length ts = length gdf" "length idx = length gdf"
    by (simp_all add: ts_def idx_def)
  have tot: "line_total (snd (gdf ! i)) = sum_list (ts ! i)" if "i < length gdf" for i
    using that by (simp add: ts_def line_total_def)
  have p: "total_bearing_change_planar gdf =
     (if tagged 0 ts = [] then Inr (series_const 0 idx)
      else case index_map idx (map fst (groupby_sum (map snd (tagged 0 ts)) (map fst (tagged 0 ts)))) of
             Inl e \<Rightarrow> Inl e
           | Inr labels \<Rightarrow>
               loc_set (series_const 0 idx) labels
                 (map snd (groupby_sum (map snd (tagged 0 ts)) (map fst (tagged 0 ts)))))"
    unfolding ts_def idx_def by (rule pipeline)
  show ?thesis
  proof (cases "tagged 0 ts = []")
    case True
    then have "\<forall>l \<in> set ts. l = []" by (simp add: tagged_eq_Nil)
    then have "line_total (snd r) = 0" if "r \<in> set gdf" for r
      using that by (simp add: ts_def line_total_def)
    then have "map (\<lambda>r. (fst r, line_total (snd r))) gdf = series_const 0 idx"
      by (simp add: series_const_def o_def idx_def)
    then show ?thesis
      using True by (simp add: p)
  next
    case False
    have k1: "distinct ks" by (simp add: ks_def)
    have k2: "\<forall>k \<in> set ks. k < length idx" by (simp add: ks_def len)
    have g: "groupby_sum (map snd (tagged 0 ts)) (map fst (tagged 0 ts))
               = map (\<lambda>k. (k, sum_list (ts ! k))) ks"
      by (simp add: groupby_sum_tagged ks_def)
    have im: "index_map idx ks = Inr (map (\<lambda>k. idx ! k) ks)"
      using k2 by (simp add: index_map_def list_all_iff)
    have g1: "map fst (map (\<lambda>k. (k, sum_list (ts ! k))) ks) = ks"
      by (simp add: o_def)
    have g2: "map snd (map (\<lambda>k. (k, sum_list (ts ! k))) ks) = map (\<lambda>k. sum_list (ts ! k)) ks"
      by (simp add: o_def)
    have "total_bearing_change_planar gdf
            = loc_set (series_const 0 idx) (map (\<lambda>k. idx ! k) ks) (map (\<lambda>k. sum_list (ts ! k)) ks)"
      unfolding p g g1 g2 im using False by simp
    also have "\<dots> = Inr (map (\<lambda>i. (idx ! i, if i \<in> set ks then sum_list (ts ! i) else 0))
                          [0..<length idx])"
      using assms k1 k2 by (intro loc_set_distinct) (simp_all add: idx_def)
    also have "map (\<lambda>i. (idx ! i, if i \<in> set ks then sum_list (ts ! i) else 0)) [0..<length idx]
                 = map (\<lambda>i. (map fst gdf ! i, line_total (map snd gdf ! i))) [0..<length gdf]"
      by (rule map_cong) (auto simp: len idx_def tot ks_def)
    finally show ?thesis by (simp only: line_total_series)
  qed
qed

subsection \<open>Claims about the aggregator\<close>

lemma arctan2_north: "arctan2 0 10 = 0"
  by (simp add: arctan2_def)

lemma arctan2_east: "arctan2 10 0 = pi / 2"
  by (simp add: arctan2_def)

lemma np_mod_360_id: "0 \<le> x \<Longrightarrow> x < 360 \<Longrightarrow> np_mod x 360 = x"
  using np_mod_360_unique [of x 0] by simp

lemma np_mod_360_shift: "360 \<le> x \<Longrightarrow> x < 720 \<Longrightarrow> np_mod x 360 = x - 360"
  using np_mod_360_unique [of x 1] by simp

lemma bearing_north: "bearing 0 10 = 0"
  by (simp add: bearing_def degrees_def arctan2_north np_mod_360_shift)

lemma bearing_east: "bearing 10 0 = 90"
  by (simp add: bearing_def degrees_def arctan2_east np_mod_360_shift)

lemma turn_angle_0_90: "turn_angle 0 90 = 90"
  by (simp add: turn_angle_def np_mod_360_id)

lemma right_angle_turns: "line_turns [(0, 0), (0, 10), (10, 10)] = [90]"
  by (simp add: line_turns_def line_bearings_def nonzero_seg_def seg_bearing_def
      bearing_north bearing_east turn_angle_0_90)

text \<open>
  Claim C6. For the single line \<open>(0, 0) \<rightarrow> (0, 10) \<rightarrow> (10, 10)\<close> the aggregator returns
  the total turn 90 for that line: the first segment has bearing 0 (North), the second
  bearing 90 (East), with the bearing computed as
  \<open>(degrees (arctan2 dx dy) + 360) mod 360\<close>.
\<close>

theorem right_angle_total:
  "total_bearing_change_planar [(i, [(0, 0), (0, 10), (10, 10)])] = Inr [(i, 90)]
   \<and> bearing 0 10 = 0 \<and> bearing 10 0 = 90
   \<and> bearing dx dy = np_mod (degrees (arctan2 dx dy) + 360) 360"
  using aggregate_distinct [of "[(i, [(0, 0), (0, 10), (10, 10)])]"] bearing_def [of dx dy]
  by (simp add: line_total_def right_angle_turns bearing_north bearing_east)

lemma zero_turns: "line_turns [(0, 0), (1, 0)] = []"
  by (simp add: line_turns_def line_bearings_def)

lemma groupby_one: "groupby_sum [v] [k] = [(k, v)]"
  by (simp add: groupby_sum_def bool_index_def)

lemma loc_positions_twice: "loc_positions [a, a] a = [0, 1]"
  by (simp add: loc_positions_def upt_rec)

theorem right_angle_total_witness:
  "total_bearing_change_planar [(1 :: int, [(0, 0), (0, 10), (10, 10)])] = Inr [(1, 90)]"
  using right_angle_total [of "1 :: int"] by simp

lemma set_adj: "s \<in> set (adj l) \<Longrightarrow> fst s \<in> set l \<and> snd s \<in> set l"
  by (induction l rule: induct_list012) auto

lemma short_no_turns: "length l < 2 \<Longrightarrow> line_turns l = []"
  using adj_eq_Nil [of l] by (simp add: line_turns_def line_bearings_def)

lemma same_points_no_turns:
  assumes "\<forall>p \<in> set l. p = hd l"
  shows "line_turns l = []"
proof -
  have "\<not> nonzero_seg s" if "s \<in> set (adj l)" for s
  proof -
    have "fst s = hd l" "snd s = hd l"
      using set_adj [OF that] assms by simp_all
    then show ?thesis by (simp add: nonzero_seg_def)
  qed
  then have "filter nonzero_seg (adj l) = []"
    by (simp add: filter_empty_conv)
  then show ?thesis by (simp add: line_turns_def line_bearings_def)
qed

lemma aggregate_no_turns:
  assumes "\<forall>r \<in> set gdf. line_turns (snd r) = []"
  shows "total_bearing_change_planar gdf = Inr (series_const 0 (map fst gdf))"
proof -
  have "tagged 0 (map line_turns (map snd gdf)) = []"
    using assms by (simp add: tagged_eq_Nil)
  then show ?thesis by (simp add: pipeline)
qed

lemma length_le_concat: "l \<in> set ls \<Longrightarrow> length l \<le> length (concat ls)"
  by (induction ls) auto

lemma aggregate_rows:
  assumes "distinct (map fst gdf)"
  shows "\<exists>out. total_bearing_change_planar gdf = Inr out \<and> map fst out = map fst gdf
           \<and> (\<forall>i. i < length gdf \<longrightarrow> out ! i = (fst (gdf ! i), line_total (snd (gdf ! i))))"
  by (rule exI [where x = "map (\<lambda>r. (fst r, line_total (snd r))) gdf"])
     (simp add: aggregate_distinct [OF assms] o_def)

text \<open>
  Where the identifiers are distinct, the aggregator returns a series with exactly the
  identifiers of the input, in the order of the input; the value of a row is 0 when its line
  produced no turn, and the sum of the turns of its line otherwise.
\<close>

lemma aggregate_identifiers_distinct:
  assumes "distinct (map fst gdf)"
  shows "\<exists>out. total_bearing_change_planar gdf = Inr out
           \<and> map fst out = map fst gdf
           \<and> (\<forall>i. i < length gdf \<longrightarrow>
                 snd (out ! i) = (if line_turns (snd (gdf ! i)) = [] then 0
                                  else sum_list (line_turns (snd (gdf ! i)))))"
proof -
  obtain out where o: "total_bearing_change_planar gdf = Inr out" "map fst out = map fst gdf"
    and v: "\<forall>i. i < length gdf \<longrightarrow> out ! i = (fst (gdf ! i), line_total (snd (gdf ! i)))"
    using aggregate_rows [OF assms] by blast
  have "snd (out ! i) = (if line_turns (snd (gdf ! i)) = [] then 0
                         else sum_list (line_turns (snd (gdf ! i))))" if "i < length gdf" for i
    using v that by (simp add: line_total_def)
  with o show ?thesis by blast
qed

text \<open>
  Degenerate geometry by itself raises nothing and counts 0. A collection with fewer than two
  vertices in total, and a collection in which every line has fewer than two points or only
  identical points, give 0 for every identifier. In a collection with distinct identifiers
  the aggregator returns, and every line with fewer than two points or with only identical
  points has the value 0.
\<close>

lemma aggregate_degenerate_distinct:
  "(length (concat (map snd gdf)) < 2 \<longrightarrow>
      total_bearing_change_planar gdf = Inr (series_const 0 (map fst gdf)))
   \<and> ((\<forall>r \<in> set gdf. length (snd r) < 2 \<or> (\<forall>p \<in> set (snd r). p = hd (snd r))) \<longrightarrow>
      total_bearing_change_planar gdf = Inr (series_const 0 (map fst gdf)))
   \<and> (distinct (map fst gdf) \<longrightarrow>
        (\<exists>out. total_bearing_change_planar gdf = Inr out \<and> map fst out = map fst gdf
           \<and> (\<forall>i. i < length gdf
                  \<and> (length (snd (gdf ! i)) < 2 \<or> (\<forall>p \<in> set (snd (gdf ! i)). p = hd (snd (gdf ! i))))
                \<longrightarrow> out ! i = (fst (gdf ! i), 0))))"
proof (intro conjI impI)
  assume a: "length (concat (map snd gdf)) < 2"
  have "line_turns (snd r) = []" if "r \<in> set gdf" for r
  proof -
    have "length (snd r) \<le> length (concat (map snd gdf))"
      using that by (intro length_le_concat) simp
    then show ?thesis using a by (intro short_no_turns) simp
  qed
  then show "total_bearing_change_planar gdf = Inr (series_const 0 (map fst gdf))"
    by (intro aggregate_no_turns) simp
next
  assume a: "\<forall>r \<in> set gdf. length (snd r) < 2 \<or> (\<forall>p \<in> set (snd r). p = hd (snd r))"
  have "line_turns (snd r) = []" if "r \<in> set gdf" for r
    using a that short_no_turns same_points_no_turns by blast
  then show "total_bearing_change_planar gdf = Inr (series_const 0 (map fst gdf))"
    by (intro aggregate_no_turns) simp
next
  assume d: "distinct (map fst gdf)"
  obtain out where o: "total_bearing_change_planar gdf = Inr out" "map fst out = map fst gdf"
    and v: "\<forall>i. i < length gdf \<longrightarrow> out ! i = (fst (gdf ! i), line_total (snd (gdf ! i)))"
    using aggregate_rows [OF d] by blast
  have "out ! i = (fst (gdf ! i), 0)"
    if "i < length gdf \<and> (length (snd (gdf ! i)) < 2 \<or> (\<forall>p \<in> set (snd (gdf ! i)). p = hd (snd (gdf ! i))))" for i
  proof -
    have "line_turns (snd (gdf ! i)) = []"
      using that short_no_turns same_points_no_turns by blast
    then show ?thesis using v that by (simp add: line_total_def)
  qed
  with o show "\<exists>out. total_bearing_change_planar gdf = Inr out \<and> map fst out = map fst gdf
           \<and> (\<forall>i. i < length gdf
                  \<and> (length (snd (gdf ! i)) < 2 \<or> (\<forall>p \<in> set (snd (gdf ! i)). p = hd (snd (gdf ! i))))
                \<longrightarrow> out ! i = (fst (gdf ! i), 0))"
    by blast
qed

text \<open>
  The last step of the source turns the positions of the lines that have a turn into labels
  and assigns by label. When two rows carry the same identifier and the first line bends,
  the one label stands for two positions and one value, and the assignment raises, whatever
  the second line is as long as it has no turn.
\<close>

lemma duplicate_identifier_raises:
  assumes "line_turns l = []"
  shows "total_bearing_change_planar [(7, [(0, 0), (0, 10), (10, 10)]), (7, l)]
           = Inl (ValueError
               ''cannot set using a list-like indexer with a different length than the value'')"
proof -
  define gdf :: "(ident \<times> point list) list"
    where "gdf = [(7, [(0, 0), (0, 10), (10, 10)]), (7, l)]"
  have t: "tagged 0 (map line_turns (map snd gdf)) = [(0, 90)]"
    by (simp add: gdf_def right_angle_turns assms)
  have g: "groupby_sum (map snd [(0 :: nat, 90 :: real)]) (map fst [(0 :: nat, 90 :: real)])
             = [(0, 90)]"
    by (simp add: groupby_one)
  have i: "index_map (map fst gdf) (map fst [(0 :: nat, 90 :: real)]) = Inr [7]"
    by (simp add: index_map_def gdf_def)
  have l: "loc_set (series_const 0 (map fst gdf)) [7] (map snd [(0 :: nat, 90 :: real)])
             = Inl (ValueError
       ''cannot set using a list-like indexer with a different length than the value'')"
    by (simp add: loc_set_def series_const_def loc_positions_twice gdf_def)
  have "total_bearing_change_planar gdf = Inl (ValueError
       ''cannot set using a list-like indexer with a different length than the value'')"
    unfolding pipeline [of gdf] t g i using l by simp
  then show ?thesis by (simp only: gdf_def)
qed

text \<open>
  Claim C3. The result is to carry exactly the identifiers of the input in the order of the
  input, duplicate identifiers included, 0 for a line without a turn and the sum of the
  turns otherwise. The code does not do this for the rows \<open>(7, (0,0) \<rightarrow> (0,10) \<rightarrow> (10,10))\<close>
  and \<open>(7, (0,0) \<rightarrow> (1,0))\<close>, where the result would be 90 and 0: the assignment by label
  raises \<^verbatim>\<open>ValueError\<close>, although the paths of the source that return early give a series
  over the same duplicated index.
\<close>

theorem aggregate_duplicate_identifier_raises:
  "total_bearing_change_planar [(7, [(0, 0), (0, 10), (10, 10)]), (7, [(0, 0), (1, 0)])]
     = Inl (ValueError
         ''cannot set using a list-like indexer with a different length than the value'')
   \<and> total_bearing_change_planar [(7, [(0, 0), (1, 0)]), (7, [(0, 0), (1, 0)])]
       = Inr [(7, 0), (7, 0)]"
proof -
  have z: "\<forall>r \<in> set [(7 :: ident, [(0, 0), (1, 0)]), (7, [(0 :: real, 0 :: real), (1, 0)])].
             line_turns (snd r) = []"
    by (simp add: zero_turns)
  show ?thesis
    using duplicate_identifier_raises [OF zero_turns] aggregate_no_turns [OF z]
    by (simp add: series_const_def)
qed

text \<open>
  Claim C5. The aggregator is never to raise on degenerate geometry: a line whose points are
  all identical is to count 0 for its identifier. The code does not do this for the rows
  \<open>(7, (0,0) \<rightarrow> (0,10) \<rightarrow> (10,10))\<close> and \<open>(7, (1,1) \<rightarrow> (1,1))\<close>: the second line is
  dropped as the source intends, but the assignment by label then raises \<^verbatim>\<open>ValueError\<close>
  instead of giving 90 and 0.
\<close>

theorem aggregate_degenerate_duplicate_raises:
  "total_bearing_change_planar [(7, [(0, 0), (0, 10), (10, 10)]), (7, [(1, 1), (1, 1)])]
     = Inl (ValueError
         ''cannot set using a list-like indexer with a different length than the value'')"
proof -
  have "line_turns [(1 :: real, 1 :: real), (1, 1)] = []"
    by (rule same_points_no_turns) simp
  then show ?thesis by (rule duplicate_identifier_raises)
qed

lemma adj_shared: "adj (us @ b # vs) = adj (us @ [b]) @ adj (b # vs)"
  by (induction us rule: induct_list012) simp_all

lemma line_bearings_shared:
  "line_bearings (us @ b # vs) = line_bearings (us @ [b]) @ line_bearings (b # vs)"
  using adj_shared [of us b vs] by (simp add: line_bearings_def)

lemma line_bearings_repeat: "line_bearings (b # replicate k b @ vs) = line_bearings (b # vs)"
proof (induction k)
  case 0 show ?case by simp
next
  case (Suc k)
  have "line_bearings (b # b # replicate k b @ vs) = line_bearings (b # replicate k b @ vs)"
    by (simp add: line_bearings_def nonzero_seg_def adj_def)
  then show ?case using Suc by simp
qed

lemma line_bearings_skip:
  "line_bearings (xs @ a # b # replicate k b @ c # ys) = line_bearings (xs @ a # b # c # ys)"
proof -
  have "line_bearings ((xs @ [a]) @ b # replicate k b @ c # ys)
          = line_bearings ((xs @ [a]) @ [b]) @ line_bearings (b # replicate k b @ c # ys)"
    by (rule line_bearings_shared)
  also have "\<dots> = line_bearings ((xs @ [a]) @ [b]) @ line_bearings (b # c # ys)"
    by (simp only: line_bearings_repeat)
  also have "\<dots> = line_bearings ((xs @ [a]) @ b # c # ys)"
    by (rule line_bearings_shared [symmetric])
  finally show ?thesis by simp
qed

lemma line_total_bend:
  assumes "a \<noteq> b" and "b \<noteq> c"
  shows "line_total (xs @ a # b # c # ys) =
           line_total (xs @ [a, b]) + turn_angle (seg_bearing (a, b)) (seg_bearing (b, c))
             + line_total (b # c # ys)"
proof -
  define P where "P = line_bearings (xs @ [a])"
  define Q where "Q = line_bearings (c # ys)"
  define u where "u = seg_bearing (a, b)"
  define v where "v = seg_bearing (b, c)"
  have nab: "nonzero_seg (a, b)" and nbc: "nonzero_seg (b, c)"
    using assms by (auto simp: nonzero_seg_def prod_eq_iff)
  have l1: "line_bearings (xs @ [a, b]) = P @ [u]"
    using line_bearings_shared [of xs a "[b]"] nab
    by (simp add: P_def u_def line_bearings_def)
  have l2: "line_bearings (b # c # ys) = v # Q"
    using line_bearings_shared [of "[b]" c ys] nbc
    by (simp add: Q_def v_def line_bearings_def)
  have "line_bearings (xs @ a # b # c # ys) = line_bearings ((xs @ [a]) @ b # c # ys)"
    by simp
  also have "\<dots> = line_bearings ((xs @ [a]) @ [b]) @ line_bearings (b # c # ys)"
    by (rule line_bearings_shared)
  finally have l: "line_bearings (xs @ a # b # c # ys) = (P @ [u]) @ v # Q"
    using l1 l2 by simp
  have "adj ((P @ [u]) @ v # Q) = adj (P @ [u]) @ [(u, v)] @ adj (v # Q)"
    using adj_shared [of "P @ [u]" v Q] adj_shared [of P u "[v]"] by simp
  then show ?thesis
    by (simp add: line_total_def line_turns_def l l1 l2 u_def v_def)
qed

text \<open>
  Claim C10. Let a line contain the vertex \<open>b\<close> repeated (one or more zero-length segments)
  between the segments \<open>a \<rightarrow> b\<close> and \<open>b \<rightarrow> c\<close>, both with a length. The aggregator drops the
  zero-length segments and counts the turn between \<open>a \<rightarrow> b\<close> and \<open>b \<rightarrow> c\<close> in the total of
  the line: the total is the total up to \<open>b\<close>, plus that turn, plus the total from \<open>b\<close> on,
  and the result is the one for the line without the repetition.
\<close>

theorem repeated_vertex_turn:
  assumes "a \<noteq> b" and "b \<noteq> c"
    and "distinct (map fst (g1 @ (i, xs @ a # b # replicate (Suc k) b @ c # ys) # g2))"
  shows "\<exists>out. total_bearing_change_planar
                 (g1 @ (i, xs @ a # b # replicate (Suc k) b @ c # ys) # g2) = Inr out
           \<and> out ! length g1 =
               (i, line_total (xs @ [a, b]) + turn_angle (seg_bearing (a, b)) (seg_bearing (b, c))
                     + line_total (b # c # ys))
           \<and> total_bearing_change_planar (g1 @ (i, xs @ a # b # c # ys) # g2) = Inr out"
proof -
  let ?l = "xs @ a # b # replicate (Suc k) b @ c # ys"
  have t: "line_total ?l = line_total (xs @ a # b # c # ys)"
    using line_bearings_skip [of xs a b "Suc k" c ys] by (simp add: line_total_def line_turns_def)
  have d: "distinct (map fst (g1 @ (i, xs @ a # b # c # ys) # g2))"
    using assms(3) by simp
  have "total_bearing_change_planar (g1 @ (i, ?l) # g2)
          = Inr (map (\<lambda>r. (fst r, line_total (snd r))) (g1 @ (i, ?l) # g2))"
    by (rule aggregate_distinct [OF assms(3)])
  moreover have "total_bearing_change_planar (g1 @ (i, xs @ a # b # c # ys) # g2)
          = Inr (map (\<lambda>r. (fst r, line_total (snd r))) (g1 @ (i, ?l) # g2))"
    using aggregate_distinct [OF d] t by simp
  moreover have "map (\<lambda>r. (fst r, line_total (snd r))) (g1 @ (i, ?l) # g2) ! length g1
                   = (i, line_total (xs @ [a, b])
                          + turn_angle (seg_bearing (a, b)) (seg_bearing (b, c))
                          + line_total (b # c # ys))"
    using t line_total_bend [OF assms(1,2), of xs ys] by (simp add: nth_append)
  ultimately show ?thesis by blast
qed

theorem repeated_vertex_turn_witness:
  "((0, 0) :: point) \<noteq> (0, 10) \<and> ((0, 10) :: point) \<noteq> (10, 10)
   \<and> distinct (map fst [(1 :: int, [(0 :: real, 0 :: real), (0, 10), (0, 10), (10, 10)])])
   \<and> total_bearing_change_planar [(1 :: int, [(0, 0), (0, 10), (0, 10), (10, 10)])]
       = Inr [(1, 90)]"
proof -
  have ab: "((0, 0) :: point) \<noteq> (0, 10)" and bc: "((0, 10) :: point) \<noteq> (10, 10)"
    by simp_all
  have d: "distinct (map fst ([] @ (1 :: int, [] @ (0, 0) # (0, 10) # replicate (Suc 0) (0, 10)
              @ (10 :: real, 10 :: real) # []) # []))"
    by simp
  obtain out where o: "total_bearing_change_planar
        ([] @ (1 :: int, [] @ (0, 0) # (0, 10) # replicate (Suc 0) (0, 10) @ (10, 10) # []) # [])
          = Inr out"
    and s: "total_bearing_change_planar ([] @ (1 :: int, [] @ (0, 0) # (0, 10) # (10, 10) # []) # [])
          = Inr out"
    using repeated_vertex_turn [OF ab bc d] by blast
  have "total_bearing_change_planar [(1 :: int, [(0, 0), (0, 10), (10, 10)])] = Inr [(1, 90)]"
    using aggregate_distinct [of "[(1 :: int, [(0, 0), (0, 10), (10, 10)])]"]
    by (simp add: line_total_def right_angle_turns)
  then have "out = [(1, 90)]" using s by simp
  then show ?thesis using o by simp
qed

text \<open>
  Claim C1. The turn between two bearings \<open>b1\<close>, \<open>b2\<close> in \<open>[0, 360)\<close> is
  \<open>\<bar>((b2 - b1 + 180) mod 360) - 180\<bar>\<close>; it lies in \<open>[0, 180]\<close> and is the smallest unsigned
  angular difference of the two bearings: the smaller of \<open>\<bar>b2 - b1\<bar>\<close> and
  \<open>360 - \<bar>b2 - b1\<bar>\<close>, and at most \<open>\<bar>b2 - b1 + 360 k\<bar>\<close> for every integer \<open>k\<close>. The bearings
  350 and 10 give the turn 20. Every bearing of a line is in \<open>[0, 360)\<close>, and the
  aggregator gives each line the sum of these turns over the consecutive pairs of the
  bearings of its segments.
\<close>

theorem turn_shortest_angle:
  assumes "0 \<le> b1" and "b1 < 360" and "0 \<le> b2" and "b2 < 360"
  shows "turn_angle b1 b2 = \<bar>np_mod (b2 - b1 + 180) 360 - 180\<bar>
         \<and> 0 \<le> turn_angle b1 b2 \<and> turn_angle b1 b2 \<le> 180
         \<and> turn_angle b1 b2 = min \<bar>b2 - b1\<bar> (360 - \<bar>b2 - b1\<bar>)
         \<and> (\<forall>k :: int. turn_angle b1 b2 \<le> \<bar>b2 - b1 + 360 * of_int k\<bar>)
         \<and> turn_angle 350 10 = 20
         \<and> (\<forall>b \<in> set (line_bearings l). 0 \<le> b \<and> b < 360)
         \<and> (distinct (map fst gdf) \<longrightarrow>
              total_bearing_change_planar gdf =
                Inr (map (\<lambda>r. (fst r, sum_list (map (\<lambda>b. turn_angle (fst b) (snd b))
                                                 (adj (line_bearings (snd r)))))) gdf))"
proof -
  have a: "\<forall>b \<in> set (line_bearings l). 0 \<le> b \<and> b < 360"
    using bearing_range by (auto simp: line_bearings_def seg_bearing_def)
  have b: "total_bearing_change_planar gdf =
                Inr (map (\<lambda>r. (fst r, sum_list (map (\<lambda>b. turn_angle (fst b) (snd b))
                                                 (adj (line_bearings (snd r)))))) gdf)"
    if "distinct (map fst gdf)"
    using aggregate_distinct [OF that] by (simp add: line_total_def line_turns_def)
  show ?thesis
    using turn_angle_range [of b1 b2] turn_angle_min [OF assms] turn_angle_least [of b1 b2]
      turn_angle_350_10 a b
    by (simp add: turn_angle_def)
qed

theorem turn_shortest_angle_witness:
  "(0 :: real) \<le> 350 \<and> (350 :: real) < 360 \<and> (0 :: real) \<le> 10 \<and> (10 :: real) < 360
   \<and> turn_angle 350 10 = 20 \<and> turn_angle 350 10 \<noteq> 340
   \<and> turn_angle 350 10 = min \<bar>10 - 350\<bar> (360 - \<bar>10 - 350\<bar>)
   \<and> distinct (map fst [(1 :: int, [(0 :: real, 0 :: real), (0, 10), (10, 10)])])
   \<and> total_bearing_change_planar [(1 :: int, [(0, 0), (0, 10), (10, 10)])]
        = Inr [(1, turn_angle 0 90)]"
proof -
  have h: "(0 :: real) \<le> 350" "(350 :: real) < 360" "(0 :: real) \<le> 10" "(10 :: real) < 360"
    by simp_all
  have d: "distinct (map fst [(1 :: int, [(0 :: real, 0 :: real), (0, 10), (10, 10)])])"
    by simp
  have lb: "line_bearings [(0, 0), (0, 10), (10, 10)] = [0, 90]"
    by (simp add: line_bearings_def nonzero_seg_def seg_bearing_def bearing_north bearing_east)
  have "turn_angle 350 10 = 20 \<and> turn_angle 350 10 = min \<bar>10 - 350\<bar> (360 - \<bar>10 - 350\<bar>)
        \<and> total_bearing_change_planar [(1 :: int, [(0, 0), (0, 10), (10, 10)])]
             = Inr [(1, turn_angle 0 90)]"
    using turn_shortest_angle [OF h, of "[(0, 0), (0, 10), (10, 10)]"
          "[(1 :: int, [(0, 0), (0, 10), (10, 10)])]"] d
    by (simp add: lb)
  then show ?thesis by simp
qed

end
